theory Spec2Isabelle
  imports Complex_Main
begin

section \<open>Data model of \<^verbatim>\<open>src/App.tsx\<close>\<close>

text \<open>
  A JavaScript number is an IEEE 754 binary64 value. A finite one is modelled by the
  real number it holds; a decimal literal of the source and the result of \<^verbatim>\<open>+\<close>, \<^verbatim>\<open>-\<close>
  and \<^verbatim>\<open>/\<close> are rounded to the nearest binary64 number, ties to the even significand,
  as the language does. Comparisons and \<^verbatim>\<open>Math.abs\<close> are exact. Infinities and
  \<^verbatim>\<open>NaN\<close> are not modelled: the captured photo is taken to have non-zero pixel
  dimensions and no operation to overflow.
\<close>

text \<open>The number of binary digits of a natural number.\<close>

fun bitLength :: "nat \<Rightarrow> nat" where
  "bitLength n = (if n = 0 then 0 else Suc (bitLength (n div 2)))"

declare bitLength.simps [simp del]

text \<open>For positive \<open>x\<close>, the integer \<open>e\<close> with \<open>2 ^ e \<le> x < 2 ^ (e + 1)\<close>.\<close>

definition exponent :: "real \<Rightarrow> int" where
  "exponent x =
     (if 1 \<le> x then int (bitLength (nat \<lfloor>x\<rfloor>)) - 1
      else - int (bitLength (nat (\<lceil>1 / x\<rceil> - 1))))"

text \<open>The nearest integer, the even one of two equally near.\<close>

definition roundEven :: "real \<Rightarrow> int" where
  "roundEven x =
     (let n = \<lfloor>x\<rfloor>; d = x - of_int n in
      if d < 1 / 2 then n else if 1 / 2 < d then n + 1 else if even n then n else n + 1)"

text \<open>
  Rounding to binary64: 53 significant binary digits, exponents from -1022 on
  (below, the spacing stays that of the smallest normal numbers).
\<close>

definition binary64 :: "real \<Rightarrow> real" where
  "binary64 x =
     (if x = 0 then 0
      else let e = max (exponent \<bar>x\<bar>) (- 1022); ulp = 2 powi (e - 52)
           in of_int (roundEven (x / ulp)) * ulp)"

definition plus64 :: "real \<Rightarrow> real \<Rightarrow> real" where
  "plus64 a b = binary64 (a + b)"

definition minus64 :: "real \<Rightarrow> real \<Rightarrow> real" where
  "minus64 a b = binary64 (a - b)"

definition divide64 :: "real \<Rightarrow> real \<Rightarrow> real" where
  "divide64 a b = binary64 (a / b)"

record thresholds =
  CENTER_TOLERANCE :: real
  HEAD_YAW_LIMIT :: real
  HEAD_ROLL_LIMIT :: real
  EYE_OPEN_THRESHOLD :: real
  EXPRESSION_THRESHOLD :: real
  MIN_FACE_SIZE :: real
  MAX_FACE_SIZE :: real

text \<open>Lines 19-27. The numbers 18 and 15, like 0.5 and 2 below, are binary64 numbers.\<close>

definition THRESHOLDS :: thresholds where
  "THRESHOLDS =
     \<lparr> CENTER_TOLERANCE = binary64 0.22, HEAD_YAW_LIMIT = 18, HEAD_ROLL_LIMIT = 15,
       EYE_OPEN_THRESHOLD = binary64 0.4, EXPRESSION_THRESHOLD = binary64 0.12,
       MIN_FACE_SIZE = binary64 0.15, MAX_FACE_SIZE = binary64 0.80 \<rparr>"

text \<open>Line 29; the constructors are capitalised (\<^verbatim>\<open>checking\<close> is reserved in Isabelle).\<close>

datatype CheckStatus = Checking | Pass | Fail

text \<open>
  Lines 31-37. The field \<^verbatim>\<open>id\<close> is \<open>item_id\<close> here; the icon, an emoji in the source,
  is kept as the name of its code point.
\<close>

record ChecklistItem =
  item_id :: string
  label :: string
  status :: CheckStatus
  detail :: string
  icon :: string

text \<open>The value of lines 47-53, and again of lines 231-237.\<close>

definition initialChecklist :: "ChecklistItem list" where
  "initialChecklist =
     [ \<lparr> item_id = ''face'', label = ''Face Detected'', status = Checking,
         detail = ''Looking...'', icon = ''U+1F464'' \<rparr>,
       \<lparr> item_id = ''framing'', label = ''Face Centered'', status = Checking,
         detail = ''Checking...'', icon = ''U+1F4D0'' \<rparr>,
       \<lparr> item_id = ''eyeContact'', label = ''Eye Contact'', status = Checking,
         detail = ''Checking...'', icon = ''U+1F440'' \<rparr>,
       \<lparr> item_id = ''expression'', label = ''Good Expression'', status = Checking,
         detail = ''Checking...'', icon = ''U+1F60A'' \<rparr>,
       \<lparr> item_id = ''headPosition'', label = ''Head Position'', status = Checking,
         detail = ''Checking...'', icon = ''U+1F3AF'' \<rparr> ]"

text \<open>What \<^verbatim>\<open>takePictureAsync\<close> resolves to: a uri, possibly missing, and the pixel size.\<close>

record photo =
  uri :: "string option"
  photo_width :: real
  photo_height :: real

text \<open>One entry of what \<^verbatim>\<open>FaceDetection.detect\<close> resolves to; every classification
  field may be absent.\<close>

record frame =
  frame_left :: real
  frame_top :: real
  frame_width :: real
  frame_height :: real

record face =
  frame :: frame
  headEulerAngleY :: "real option"
  yawAngle_field :: "real option"
  headEulerAngleZ :: "real option"
  rollAngle_field :: "real option"
  smilingProbability :: "real option"
  leftEyeOpenProbability :: "real option"
  rightEyeOpenProbability :: "real option"

section \<open>The criteria of one frame (lines 112-177)\<close>

text \<open>The operator \<^verbatim>\<open>??\<close>: the left operand unless it is absent.\<close>

definition nullish :: "'a option \<Rightarrow> 'a \<Rightarrow> 'a" where
  "nullish a b = (case a of Some v \<Rightarrow> v | None \<Rightarrow> b)"

text \<open>Lines 118-126.\<close>

definition faceCenterX :: "photo \<Rightarrow> face \<Rightarrow> real" where
  "faceCenterX photo face =
     divide64 (plus64 (frame_left (frame face)) (divide64 (frame_width (frame face)) 2))
       (photo_width photo)"

definition faceCenterY :: "photo \<Rightarrow> face \<Rightarrow> real" where
  "faceCenterY photo face =
     divide64 (plus64 (frame_top (frame face)) (divide64 (frame_height (frame face)) 2))
       (photo_height photo)"

definition faceWidthRatio :: "photo \<Rightarrow> face \<Rightarrow> real" where
  "faceWidthRatio photo face = divide64 (frame_width (frame face)) (photo_width photo)"

definition yawAngle :: "face \<Rightarrow> real" where
  "yawAngle face = nullish (headEulerAngleY face) (nullish (yawAngle_field face) 0)"

definition rollAngle :: "face \<Rightarrow> real" where
  "rollAngle face = nullish (headEulerAngleZ face) (nullish (rollAngle_field face) 0)"

definition smileProb :: "face \<Rightarrow> real" where
  "smileProb face = nullish (smilingProbability face) 0"

definition leftEyeOpen :: "face \<Rightarrow> real" where
  "leftEyeOpen face = nullish (leftEyeOpenProbability face) (binary64 0.8)"

definition rightEyeOpen :: "face \<Rightarrow> real" where
  "rightEyeOpen face = nullish (rightEyeOpenProbability face) (binary64 0.8)"

text \<open>
  The assignment \<^verbatim>\<open>newChecklist[i] = { ...newChecklist[i], status, detail }\<close>.
  The checklist has five entries in every state of the program and \<open>i\<close> is below 5,
  so the index is in range; the statements below assume the length.
\<close>

definition setItem :: "nat \<Rightarrow> CheckStatus \<Rightarrow> string \<Rightarrow> ChecklistItem list \<Rightarrow> ChecklistItem list" where
  "setItem i st d newChecklist = newChecklist[i := (newChecklist ! i)\<lparr>status := st, detail := d\<rparr>]"

text \<open>Each numbered block of the source updates \<^verbatim>\<open>newChecklist\<close> and \<^verbatim>\<open>passCount\<close>.\<close>

type_synonym progress = "ChecklistItem list \<times> nat"

text \<open>Lines 128-130.\<close>

definition faceBlock :: "progress \<Rightarrow> progress" where
  "faceBlock = (\<lambda>(newChecklist, passCount).
     (setItem 0 Pass ''Visible'' newChecklist, passCount + 1))"

text \<open>Lines 132-146.\<close>

definition offX :: "photo \<Rightarrow> face \<Rightarrow> real" where
  "offX photo face = \<bar>minus64 (faceCenterX photo face) 0.5\<bar>"

definition offY :: "photo \<Rightarrow> face \<Rightarrow> real" where
  "offY photo face = \<bar>minus64 (faceCenterY photo face) 0.5\<bar>"

definition centered :: "photo \<Rightarrow> face \<Rightarrow> bool" where
  "centered photo face \<longleftrightarrow>
     offX photo face < CENTER_TOLERANCE THRESHOLDS \<and>
     offY photo face < plus64 (CENTER_TOLERANCE THRESHOLDS) (binary64 0.1)"

definition goodSize :: "photo \<Rightarrow> face \<Rightarrow> bool" where
  "goodSize photo face \<longleftrightarrow>
     faceWidthRatio photo face \<ge> MIN_FACE_SIZE THRESHOLDS \<and>
     faceWidthRatio photo face \<le> MAX_FACE_SIZE THRESHOLDS"

definition framingHint :: "photo \<Rightarrow> face \<Rightarrow> string" where
  "framingHint photo face =
     (if \<not> centered photo face then
        (if offX photo face > offY photo face
         then (if faceCenterX photo face < 0.5 then ''Move right'' else ''Move left'')
         else (if faceCenterY photo face < 0.5 then ''Move down'' else ''Move up''))
      else (if faceWidthRatio photo face < MIN_FACE_SIZE THRESHOLDS
            then ''Move closer'' else ''Move back''))"

definition framingBlock :: "photo \<Rightarrow> face \<Rightarrow> progress \<Rightarrow> progress" where
  "framingBlock photo face = (\<lambda>(newChecklist, passCount).
     if centered photo face \<and> goodSize photo face
     then (setItem 1 Pass ''Perfect'' newChecklist, passCount + 1)
     else (setItem 1 Fail (framingHint photo face) newChecklist, passCount))"

text \<open>Lines 148-156.\<close>

definition eyesOk :: "face \<Rightarrow> bool" where
  "eyesOk face \<longleftrightarrow>
     leftEyeOpen face > EYE_OPEN_THRESHOLD THRESHOLDS \<and>
     rightEyeOpen face > EYE_OPEN_THRESHOLD THRESHOLDS"

definition lookingOk :: "face \<Rightarrow> bool" where
  "lookingOk face \<longleftrightarrow> \<bar>yawAngle face\<bar> < HEAD_YAW_LIMIT THRESHOLDS"

definition eyesBlock :: "face \<Rightarrow> progress \<Rightarrow> progress" where
  "eyesBlock face = (\<lambda>(newChecklist, passCount).
     if eyesOk face \<and> lookingOk face
     then (setItem 2 Pass ''Great!'' newChecklist, passCount + 1)
     else (setItem 2 Fail (if \<not> eyesOk face then ''Open eyes'' else ''Look at camera'')
             newChecklist, passCount))"

text \<open>Lines 158-164.\<close>

definition expressionBlock :: "face \<Rightarrow> progress \<Rightarrow> progress" where
  "expressionBlock face = (\<lambda>(newChecklist, passCount).
     if smileProb face > EXPRESSION_THRESHOLD THRESHOLDS
     then (setItem 3 Pass (if smileProb face > 0.5 then ''Great energy!'' else ''Engaged'')
             newChecklist, passCount + 1)
     else (setItem 3 Fail ''Smile a bit'' newChecklist, passCount))"

text \<open>Lines 166-172.\<close>

definition positionBlock :: "face \<Rightarrow> progress \<Rightarrow> progress" where
  "positionBlock face = (\<lambda>(newChecklist, passCount).
     if \<bar>rollAngle face\<bar> < HEAD_ROLL_LIMIT THRESHOLDS
     then (setItem 4 Pass ''Good'' newChecklist, passCount + 1)
     else (setItem 4 Fail ''Straighten head'' newChecklist, passCount))"

text \<open>Lines 174-177: the branch without a face; the loop runs over \<open>i = 1, ..., 4\<close>.\<close>

definition noFaceBlock :: "progress \<Rightarrow> progress" where
  "noFaceBlock = (\<lambda>(newChecklist, passCount).
     (fold (\<lambda>i. setItem i Checking ''Need face'') [1..<5]
        (setItem 0 Fail ''Not found'' newChecklist), passCount))"

text \<open>
  Lines 112-177. \<open>checklist\<close> is the array the callback closed over; \<open>faces\<close> is what
  the detector resolved to, \<open>None\<close> for a null result (the test \<^verbatim>\<open>faces &&\<close>).
  Only \<^verbatim>\<open>faces[0]\<close> is read.
\<close>

definition evaluate :: "ChecklistItem list \<Rightarrow> photo \<Rightarrow> face list option \<Rightarrow> progress" where
  "evaluate checklist photo faces =
     (case faces of
        Some (face # rest) \<Rightarrow>
          positionBlock face (expressionBlock face (eyesBlock face
            (framingBlock photo face (faceBlock (checklist, 0)))))
      | _ \<Rightarrow> noFaceBlock (checklist, 0))"

text \<open>Line 259.\<close>

definition passedCount :: "ChecklistItem list \<Rightarrow> nat" where
  "passedCount checklist = length (filter (\<lambda>i. status i = Pass) checklist)"

section \<open>The component state and \<^verbatim>\<open>analyzeFrame\<close> (lines 39-243)\<close>

text \<open>
  The state of the component: the React state variables of lines 42-53, the refs
  \<^verbatim>\<open>cameraRef\<close> (only whether it is attached) and \<^verbatim>\<open>isCapturing\<close>, and the calls of
  \<^verbatim>\<open>analyzeFrame\<close> that are suspended at one of its two \<^verbatim>\<open>await\<close>s. A suspended call
  keeps the \<^verbatim>\<open>checklist\<close> its closure captured and, past the capture, the photo.
  JavaScript runs one handler at a time, so a call is interleaved with other handlers
  at its \<^verbatim>\<open>await\<close>s only. The timers of lines 199-214 are not part of the state: the
  event \<open>Tick\<close> below is one call of \<^verbatim>\<open>analyzeFrame\<close> by the interval, taken with the
  values of the latest render, and may come in any state.
\<close>

datatype pending =
  AwaitCapture "ChecklistItem list"
| AwaitDetect "ChecklistItem list" photo

record state =
  isReady :: bool
  cameraReady :: bool
  allChecksPassed :: bool
  passStreak :: nat
  checklist :: "ChecklistItem list"
  cameraRef :: bool
  isCapturing :: bool
  inflight :: "pending list"

text \<open>The first render with the camera view attached.\<close>

definition initialState :: state where
  "initialState =
     \<lparr> isReady = False, cameraReady = False, allChecksPassed = False, passStreak = 0,
       checklist = initialChecklist, cameraRef = True, isCapturing = False,
       inflight = [] \<rparr>"

text \<open>What an awaited promise delivers: a value, or a rejection that \<^verbatim>\<open>await\<close> throws.\<close>

datatype 'a awaited = Resolved 'a | Rejected

datatype error = CaptureError | DetectError

text \<open>How a stretch of the \<^verbatim>\<open>try\<close> block ends, if not by an exception.\<close>

datatype exit = Return | Await pending

text \<open>Lines 179-188: the setters, the updater of \<^verbatim>\<open>setPassStreak\<close> reading the current streak.\<close>

definition commit :: "progress \<Rightarrow> state \<Rightarrow> state" where
  "commit = (\<lambda>(newChecklist, passCount) s.
     let s1 = s\<lparr>checklist := newChecklist\<rparr> in
     if passCount = 5
     then (let prev = passStreak s1 in
           (if prev \<ge> 2 then s1\<lparr>allChecksPassed := True\<rparr> else s1)\<lparr>passStreak := prev + 1\<rparr>)
     else s1\<lparr>passStreak := 0\<rparr>)"

text \<open>Line 100: \<^verbatim>\<open>photo?.uri\<close> is truthy.\<close>

definition hasUri :: "photo option \<Rightarrow> bool" where
  "hasUri p = (case p of None \<Rightarrow> False
     | Some ph \<Rightarrow> (case uri ph of None \<Rightarrow> False | Some u \<Rightarrow> u \<noteq> []))"

text \<open>Lines 84-98: the guard, the flag, and the call of \<^verbatim>\<open>takePictureAsync\<close>.\<close>

definition analyzeFrame :: "state \<Rightarrow> error + state" where
  "analyzeFrame s =
     (if \<not> cameraRef s \<or> \<not> cameraReady s \<or> isCapturing s \<or> allChecksPassed s then Inr s
      else Inr (s\<lparr>isCapturing := True, inflight := inflight s @ [AwaitCapture (checklist s)]\<rparr>))"

text \<open>Lines 93-110, from the delivery of the capture to the call of the detector.\<close>

definition tryCapture :: "ChecklistItem list \<Rightarrow> photo option awaited \<Rightarrow> state \<Rightarrow> error + exit \<times> state" where
  "tryCapture captured r s =
     (case r of
        Rejected \<Rightarrow> Inl CaptureError
      | Resolved p \<Rightarrow>
          (case p of
             None \<Rightarrow> Inr (Return, s\<lparr>isCapturing := False\<rparr>)
           | Some photo \<Rightarrow>
               if \<not> hasUri p then Inr (Return, s\<lparr>isCapturing := False\<rparr>)
               else Inr (Await (AwaitDetect captured photo), s)))"

text \<open>Lines 105-188, from the delivery of the detection to the end of the \<^verbatim>\<open>try\<close> block.\<close>

definition tryDetect :: "ChecklistItem list \<Rightarrow> photo \<Rightarrow> face list option awaited \<Rightarrow> state \<Rightarrow> error + exit \<times> state" where
  "tryDetect captured photo r s =
     (case r of
        Rejected \<Rightarrow> Inl DetectError
      | Resolved faces \<Rightarrow> Inr (Return, commit (evaluate captured photo faces) s))"

text \<open>
  Lines 190-195: \<^verbatim>\<open>catch\<close> takes every exception and only logs; \<^verbatim>\<open>finally\<close> runs when
  the call ends, not when it suspends. \<open>s\<close> is the state before the stretch, which
  an exception leaves as it is.
\<close>

definition catchFinally :: "state \<Rightarrow> error + exit \<times> state \<Rightarrow> error + pending option \<times> state" where
  "catchFinally s body =
     (case body of
        Inl e \<Rightarrow> Inr (None, s\<lparr>isCapturing := False\<rparr>)
      | Inr (Return, s') \<Rightarrow> Inr (None, s'\<lparr>isCapturing := False\<rparr>)
      | Inr (Await p, s') \<Rightarrow> Inr (Some p, s'))"

text \<open>The suspended call \<open>i\<close> has run on: it is gone, or waits for the next delivery.\<close>

definition resumed :: "nat \<Rightarrow> error + pending option \<times> state \<Rightarrow> error + state" where
  "resumed i r =
     (case r of
        Inl e \<Rightarrow> Inl e
      | Inr (None, s') \<Rightarrow>
          Inr (s'\<lparr>inflight := take i (inflight s') @ drop (Suc i) (inflight s')\<rparr>)
      | Inr (Some p, s') \<Rightarrow> Inr (s'\<lparr>inflight := (inflight s')[i := p]\<rparr>))"

text \<open>Lines 216-220.\<close>

definition startCheck :: "state \<Rightarrow> state" where
  "startCheck s = s\<lparr>isReady := True, allChecksPassed := False, passStreak := 0\<rparr>"

text \<open>Lines 222-238; a suspended call is not touched.\<close>

definition resetCheck :: "state \<Rightarrow> state" where
  "resetCheck s =
     s\<lparr>isReady := False, allChecksPassed := False, passStreak := 0, isCapturing := False,
       checklist := initialChecklist\<rparr>"

text \<open>Lines 241-243.\<close>

definition onCameraReady :: "state \<Rightarrow> state" where
  "onCameraReady s = s\<lparr>cameraReady := True\<rparr>"

text \<open>
  The handlers the runtime may call. A delivery names the suspended call it is for; one
  that names no call waiting for it cannot happen and leaves the state as it is.
\<close>

datatype event =
  StartCheck
| ResetCheck
| OnCameraReady
| Tick
| CaptureSettled nat "photo option awaited"
| DetectSettled nat "face list option awaited"

fun step :: "state \<Rightarrow> event \<Rightarrow> error + state" where
  "step s StartCheck = Inr (startCheck s)"
| "step s ResetCheck = Inr (resetCheck s)"
| "step s OnCameraReady = Inr (onCameraReady s)"
| "step s Tick = analyzeFrame s"
| "step s (CaptureSettled i r) =
     (if i < length (inflight s) then
        (case inflight s ! i of
           AwaitCapture cl \<Rightarrow> resumed i (catchFinally s (tryCapture cl r s))
         | AwaitDetect cl ph \<Rightarrow> Inr s)
      else Inr s)"
| "step s (DetectSettled i r) =
     (if i < length (inflight s) then
        (case inflight s ! i of
           AwaitCapture cl \<Rightarrow> Inr s
         | AwaitDetect cl ph \<Rightarrow> resumed i (catchFinally s (tryDetect cl ph r s)))
      else Inr s)"

fun run :: "state \<Rightarrow> event list \<Rightarrow> error + state" where
  "run s [] = Inr s"
| "run s (e # es) = (case step s e of Inl err \<Rightarrow> Inl err | Inr s' \<Rightarrow> run s' es)"

text \<open>One evaluation cycle that nothing interrupts, with a capture that has a uri.\<close>

definition cycle :: "photo \<times> face list option \<Rightarrow> event list" where
  "cycle = (\<lambda>(photo, faces).
     [Tick, CaptureSettled 0 (Resolved (Some photo)), DetectSettled 0 (Resolved faces)])"

section \<open>Sample inputs\<close>

text \<open>A 1000 by 1000 photo and a face in its middle, 300 wide, smiling, eyes open.\<close>

definition photoA :: photo where
  "photoA = \<lparr> uri = Some ''file:///a.jpg'', photo_width = 1000, photo_height = 1000 \<rparr>"

definition faceA :: face where
  "faceA =
     \<lparr> frame = \<lparr> frame_left = 350, frame_top = 350, frame_width = 300, frame_height = 300 \<rparr>,
       headEulerAngleY = Some 0, yawAngle_field = None,
       headEulerAngleZ = Some 0, rollAngle_field = None,
       smilingProbability = Some (binary64 0.6),
       leftEyeOpenProbability = Some (binary64 0.9),
       rightEyeOpenProbability = Some (binary64 0.9) \<rparr>"

text \<open>The same face with another bounding box.\<close>

definition framed :: "real \<Rightarrow> real \<Rightarrow> real \<Rightarrow> real \<Rightarrow> face" where
  "framed l t w h =
     faceA\<lparr>frame := \<lparr> frame_left = l, frame_top = t, frame_width = w, frame_height = h \<rparr>\<rparr>"

text \<open>The same face as a detector without classification reports it.\<close>

definition faceBare :: face where
  "faceBare =
     faceA\<lparr> headEulerAngleY := None, headEulerAngleZ := None, smilingProbability := None,
            leftEyeOpenProbability := None, rightEyeOpenProbability := None \<rparr>"

text \<open>The state after start, with the camera ready.\<close>

definition sampling :: state where
  "sampling = onCameraReady (startCheck initialState)"

text \<open>The first call of \<^verbatim>\<open>analyzeFrame\<close> suspended at the capture, then at the detector.\<close>

definition capturing :: state where
  "capturing = sampling\<lparr>isCapturing := True, inflight := [AwaitCapture initialChecklist]\<rparr>"

definition detecting :: state where
  "detecting = sampling\<lparr>isCapturing := True, inflight := [AwaitDetect initialChecklist photoA]\<rparr>"

text \<open>Stop and start again while the first call is still suspended at the capture.\<close>

definition restarted :: state where
  "restarted = startCheck (resetCheck capturing)"

text \<open>The state after three cycles on \<open>faceA\<close>.\<close>

definition readyA :: state where
  "readyA = sampling\<lparr>checklist := fst (evaluate initialChecklist photoA (Some [faceA])),
     passStreak := 3, allChecksPassed := True\<rparr>"

section \<open>Notions of the specification\<close>

text \<open>
  A cycle with all five criteria passing: \<^verbatim>\<open>passedCount == 5\<close> on the checklist the
  cycle writes. The count does not depend on the five entries the cycle starts from
  (lemma \<open>passCount_fullPass\<close>).
\<close>

definition fullPass :: "photo \<times> face list option \<Rightarrow> bool" where
  "fullPass = (\<lambda>(photo, faces). passedCount (fst (evaluate initialChecklist photo faces)) = 5)"

text \<open>What the presentation reads: the five statuses, the streak, and readiness.\<close>

definition observe :: "error + state \<Rightarrow> (CheckStatus list \<times> nat \<times> bool) option" where
  "observe r = (case r of Inl e \<Rightarrow> None
     | Inr s \<Rightarrow> Some (map status (checklist s), passStreak s, allChecksPassed s))"

text \<open>No call is suspended and the guard of line 86 depends on readiness alone.\<close>

definition quiet :: "state \<Rightarrow> bool" where
  "quiet s \<longleftrightarrow> cameraRef s \<and> cameraReady s \<and> \<not> isCapturing s \<and> inflight s = [] \<and>
     length (checklist s) = 5"

text \<open>Every checklist in the state, captured ones included, has its five entries.\<close>

fun capturedBy :: "pending \<Rightarrow> ChecklistItem list" where
  "capturedBy (AwaitCapture cl) = cl"
| "capturedBy (AwaitDetect cl ph) = cl"

definition wellFormed :: "state \<Rightarrow> bool" where
  "wellFormed s \<longleftrightarrow> length (checklist s) = 5 \<and> (\<forall>p\<in>set (inflight s). length (capturedBy p) = 5)"

text \<open>A run in which no reset is issued while a call of \<^verbatim>\<open>analyzeFrame\<close> is suspended.\<close>

fun cleanRun :: "state \<Rightarrow> event list \<Rightarrow> bool" where
  "cleanRun s [] = True"
| "cleanRun s (e # es) =
     ((e = ResetCheck \<longrightarrow> inflight s = []) \<and>
      (case step s e of Inl err \<Rightarrow> False | Inr s' \<Rightarrow> cleanRun s' es))"

text \<open>
  At most one call is suspended, the flag is set while it is, and none is once the
  state is ready.
\<close>

definition exclusive :: "state \<Rightarrow> bool" where
  "exclusive s \<longleftrightarrow>
     (inflight s \<noteq> [] \<longrightarrow> isCapturing s \<and> length (inflight s) = 1) \<and>
     (allChecksPassed s \<longrightarrow> inflight s = [])"

section \<open>Auxiliary facts\<close>

lemma length_setItem [simp]: "length (setItem i st d xs) = length xs"
  by (simp add: setItem_def)

lemma status_setItem:
  "j < length xs \<Longrightarrow> status (setItem i st d xs ! j) = (if j = i then st else status (xs ! j))"
  by (simp add: setItem_def nth_list_update)

lemma detail_setItem:
  "j < length xs \<Longrightarrow> detail (setItem i st d xs ! j) = (if j = i then d else detail (xs ! j))"
  by (simp add: setItem_def nth_list_update)

lemma length_fold_setItem [simp]:
  "length (fold (\<lambda>i. setItem i st d) js xs) = length xs"
  by (induction js arbitrary: xs) simp_all

lemmas blocks =
  faceBlock_def framingBlock_def eyesBlock_def expressionBlock_def positionBlock_def

lemma evaluate_face:
  "evaluate cl ph (Some (f # fs)) =
     positionBlock f (expressionBlock f (eyesBlock f (framingBlock ph f (faceBlock (cl, 0)))))"
  by (simp add: evaluate_def)

lemma evaluate_noface:
  "faces = None \<or> faces = Some [] \<Longrightarrow> evaluate cl ph faces = noFaceBlock (cl, 0)"
  by (auto simp add: evaluate_def)

lemma faces_cases:
  obtains "faces = None \<or> faces = Some []" | f fs where "faces = Some (f # fs)"
  by (cases faces; cases "the faces") auto

lemma length_evaluate: "length (fst (evaluate cl ph faces)) = length cl"
  by (simp add: evaluate_def blocks noFaceBlock_def split: option.splits list.splits)

lemma five: "length cl = 5 \<Longrightarrow> \<exists>a b c d e. cl = [a, b, c, d, e]"
  by (auto simp add: length_Suc_conv eval_nat_numeral)

lemma noFace_statuses:
  assumes "length cl = 5"
  shows "map status (fst (noFaceBlock (cl, n))) = [Fail, Checking, Checking, Checking, Checking]"
proof -
  from five [OF assms] obtain a b c d e where "cl = [a, b, c, d, e]" by blast
  then show ?thesis
    by (simp add: noFaceBlock_def setItem_def upt_rec)
qed

lemma snd_noFace: "snd (noFaceBlock (cl, n)) = n"
  by (simp add: noFaceBlock_def)

text \<open>The local \<^verbatim>\<open>passCount\<close> is the number of passes in the checklist written.\<close>

lemma snd_evaluate_any: "snd (evaluate cl ph faces) = snd (evaluate cl' ph faces)"
  by (simp add: evaluate_def blocks noFaceBlock_def split: option.splits list.splits)

lemma passCount_passedCount:
  assumes "length cl = 5"
  shows "snd (evaluate cl ph faces) = passedCount (fst (evaluate cl ph faces))"
proof (cases faces rule: faces_cases)
  case 1
  have pc: "passedCount xs = length (filter (\<lambda>st. st = Pass) (map status xs))" for xs
    by (simp add: passedCount_def filter_map comp_def)
  show ?thesis
    by (simp only: evaluate_noface [OF 1] pc noFace_statuses [OF assms] snd_noFace) simp
next
  case (2 f fs)
  from five [OF assms] obtain a b c d e where "cl = [a, b, c, d, e]" by blast
  then show ?thesis
    unfolding 2 evaluate_face
    by (simp add: blocks setItem_def passedCount_def)
qed

lemma passCount_fullPass:
  assumes "length cl = 5"
  shows "snd (evaluate cl ph faces) = 5 \<longleftrightarrow> fullPass (ph, faces)"
proof -
  have "snd (evaluate cl ph faces) = snd (evaluate initialChecklist ph faces)"
    by (rule snd_evaluate_any)
  also have "\<dots> = passedCount (fst (evaluate initialChecklist ph faces))"
    by (rule passCount_passedCount) (simp add: initialChecklist_def)
  finally show ?thesis by (simp add: fullPass_def)
qed

lemma commit_simps:
  "checklist (commit r s) = fst r"
  "passStreak (commit r s) = (if snd r = 5 then passStreak s + 1 else 0)"
  "allChecksPassed (commit r s) = (allChecksPassed s \<or> (snd r = 5 \<and> 2 \<le> passStreak s))"
  "isReady (commit r s) = isReady s"
  "cameraReady (commit r s) = cameraReady s"
  "cameraRef (commit r s) = cameraRef s"
  "isCapturing (commit r s) = isCapturing s"
  "inflight (commit r s) = inflight s"
  by (auto simp add: commit_def Let_def split: prod.splits)

lemmas handlers =
  analyzeFrame_def tryCapture_def tryDetect_def catchFinally_def resumed_def

lemmas sample_defs =
  sampling_def initialState_def startCheck_def resetCheck_def onCameraReady_def
  initialChecklist_def

lemmas criteria_defs =
  evaluate_def blocks noFaceBlock_def setItem_def commit_def upt_rec

subsection \<open>The sample face\<close>

text \<open>
  Numbers are evaluated with the code equations, one comparison at a time; the
  checklists and runs built on them are then evaluated by rewriting.
\<close>

lemma hasUri_photoA: "hasUri (Some photoA)"
  by (simp add: hasUri_def photoA_def)

lemma centered_faceA: "centered photoA faceA"
  by code_simp

lemma goodSize_faceA: "goodSize photoA faceA"
  by code_simp

lemma eyesOk_faceA: "eyesOk faceA"
  by code_simp

lemma lookingOk_faceA: "lookingOk faceA"
  by code_simp

lemma smile_faceA: "EXPRESSION_THRESHOLD THRESHOLDS < smileProb faceA"
  by code_simp

lemma roll_faceA: "\<bar>rollAngle faceA\<bar> < HEAD_ROLL_LIMIT THRESHOLDS"
  by code_simp

lemmas faceA_passes =
  hasUri_photoA centered_faceA goodSize_faceA eyesOk_faceA lookingOk_faceA smile_faceA
  roll_faceA

subsection \<open>Runs\<close>

lemma run_append:
  "run s (xs @ ys) = (case run s xs of Inl err \<Rightarrow> Inl err | Inr s' \<Rightarrow> run s' ys)"
  by (induction xs arbitrary: s) (auto split: sum.splits)

text \<open>No handler lets an exception out, so every run has a final state.\<close>

lemma step_total: "\<exists>s'. step s e = Inr s'"
  by (cases e) (auto simp add: handlers split: pending.splits awaited.splits option.splits)

lemma run_total: "\<exists>s'. run s es = Inr s'"
proof (induction es arbitrary: s)
  case Nil
  show ?case by simp
next
  case (Cons e es)
  obtain s1 where "step s e = Inr s1" using step_total by blast
  with Cons.IH [of s1] show ?case by simp
qed

subsection \<open>One uninterrupted cycle\<close>

lemma run_cycle:
  assumes "cameraRef s" "cameraReady s" "\<not> isCapturing s" "inflight s = []"
    and "hasUri (Some ph)"
  shows "run s (cycle (ph, faces)) =
           Inr (if allChecksPassed s then s else commit (evaluate (checklist s) ph faces) s)"
  using assms
  by (simp add: cycle_def handlers commit_def Let_def split: prod.splits)

lemma quiet_cycle:
  assumes "quiet s" and "hasUri (Some ph)"
  shows "\<exists>s'. run s (cycle (ph, faces)) = Inr s' \<and> quiet s' \<and>
     (allChecksPassed s \<longrightarrow> s' = s) \<and>
     (\<not> allChecksPassed s \<longrightarrow>
        passStreak s' = (if fullPass (ph, faces) then passStreak s + 1 else 0) \<and>
        (allChecksPassed s' \<longleftrightarrow> fullPass (ph, faces) \<and> 2 \<le> passStreak s))"
proof -
  from assms have len: "length (checklist s) = 5" by (simp add: quiet_def)
  from assms have "run s (cycle (ph, faces)) =
      Inr (if allChecksPassed s then s else commit (evaluate (checklist s) ph faces) s)"
    by (intro run_cycle) (simp_all add: quiet_def)
  moreover have "quiet (commit (evaluate (checklist s) ph faces) s)"
    using assms by (simp add: quiet_def commit_simps length_evaluate)
  ultimately show ?thesis
    using assms(1) by (simp add: commit_simps passCount_fullPass [OF len])
qed

subsection \<open>Three in a row\<close>

lemma all_less_three:
  "(\<forall>j<3. Q j) \<longleftrightarrow> Q 0 \<and> Q (Suc 0) \<and> Q (Suc (Suc 0))" for Q :: "nat \<Rightarrow> bool"
  by (auto simp add: numeral_3_eq_3 less_Suc_eq)

lemma takeWhile_two:
  "2 \<le> length (takeWhile P xs) \<longleftrightarrow> (\<exists>x y zs. xs = x # y # zs \<and> P x \<and> P y)"
  by (cases xs; cases "tl xs") auto

lemma last_two:
  assumes "length rs = Suc (Suc k)"
  shows "rev rs = rs ! Suc k # rs ! k # rev (take k rs)"
proof -
  from assms have "drop k rs = rs ! k # drop (Suc k) rs" "drop (Suc k) rs = [rs ! Suc k]"
    by (simp_all add: Cons_nth_drop_Suc [symmetric])
  then have "rs = take k rs @ [rs ! k, rs ! Suc k]"
    by (metis append_take_drop_id)
  then have "rev rs = rev (take k rs @ [rs ! k, rs ! Suc k])" by simp
  then show ?thesis by (simp only: rev_append rev.simps append.simps)
qed

lemma window_snoc:
  "(\<exists>k. k + 3 \<le> length (rs @ [r]) \<and> (\<forall>j<3. P ((rs @ [r]) ! (k + j)))) \<longleftrightarrow>
   (\<exists>k. k + 3 \<le> length rs \<and> (\<forall>j<3. P (rs ! (k + j)))) \<or>
   (P r \<and> 2 \<le> length (takeWhile P (rev rs)))"
  (is "?L \<longleftrightarrow> ?A \<or> ?B")
proof
  assume ?L
  then obtain k where k: "k + 3 \<le> length rs + 1"
    and w: "P ((rs @ [r]) ! k)" "P ((rs @ [r]) ! Suc k)" "P ((rs @ [r]) ! Suc (Suc k))"
    by (auto simp add: all_less_three)
  show "?A \<or> ?B"
  proof (cases "k + 3 \<le> length rs")
    case True
    with w have "\<forall>j<3. P (rs ! (k + j))"
      by (simp add: all_less_three nth_append)
    with True show ?thesis by blast
  next
    case False
    with k have len: "length rs = Suc (Suc k)" by simp
    with w have p: "P r" "P (rs ! k)" "P (rs ! Suc k)"
      by (simp_all add: nth_append)
    with last_two [OF len] have "\<exists>x y zs. rev rs = x # y # zs \<and> P x \<and> P y"
      by blast
    then have "2 \<le> length (takeWhile P (rev rs))"
      by (simp only: takeWhile_two)
    with p show ?thesis by blast
  qed
next
  assume "?A \<or> ?B"
  then show ?L
  proof
    assume ?A
    then obtain k where "k + 3 \<le> length rs" "\<forall>j<3. P (rs ! (k + j))" by blast
    then have "k + 3 \<le> length (rs @ [r]) \<and> (\<forall>j<3. P ((rs @ [r]) ! (k + j)))"
      by (simp add: nth_append)
    then show ?L by blast
  next
    assume ?B
    then obtain x y zs where "P r" "rev rs = x # y # zs" "P x" "P y"
      by (auto simp add: takeWhile_two)
    then have rs: "rs = rev zs @ [y, x]"
      by (simp add: rev_swap)
    have "length zs + 3 \<le> length (rs @ [r]) \<and> (\<forall>j<3. P ((rs @ [r]) ! (length zs + j)))"
      using \<open>P r\<close> \<open>P x\<close> \<open>P y\<close> by (simp add: rs all_less_three nth_append)
    then show ?L by blast
  qed
qed

lemma stabilization_inv:
  assumes "quiet s" "\<not> allChecksPassed s" "passStreak s = 0"
    and "\<forall>r\<in>set rs. hasUri (Some (fst r))"
  shows "\<exists>s'. run s (concat (map cycle rs)) = Inr s' \<and> quiet s' \<and>
      (allChecksPassed s' \<longleftrightarrow> (\<exists>k. k + 3 \<le> length rs \<and> (\<forall>j<3. fullPass (rs ! (k + j))))) \<and>
      (\<not> allChecksPassed s' \<longrightarrow> passStreak s' = length (takeWhile fullPass (rev rs)))"
  using assms(4)
proof (induction rs rule: rev_induct)
  case Nil
  with assms(1-3) show ?case by simp
next
  case (snoc r rs)
  then obtain s1 where s1: "run s (concat (map cycle rs)) = Inr s1" "quiet s1"
      "allChecksPassed s1 \<longleftrightarrow> (\<exists>k. k + 3 \<le> length rs \<and> (\<forall>j<3. fullPass (rs ! (k + j))))"
      "\<not> allChecksPassed s1 \<longrightarrow> passStreak s1 = length (takeWhile fullPass (rev rs))"
    by auto
  obtain ph faces where r: "r = (ph, faces)" by (cases r)
  with snoc.prems have "hasUri (Some ph)" by simp
  from quiet_cycle [OF s1(2) this, of faces]
  obtain s2 where s2: "run s1 (cycle (ph, faces)) = Inr s2" "quiet s2"
      "allChecksPassed s1 \<longrightarrow> s2 = s1"
      "\<not> allChecksPassed s1 \<longrightarrow>
        passStreak s2 = (if fullPass (ph, faces) then passStreak s1 + 1 else 0) \<and>
        (allChecksPassed s2 \<longleftrightarrow> fullPass (ph, faces) \<and> 2 \<le> passStreak s1)"
    by blast
  have run: "run s (concat (map cycle (rs @ [r]))) = Inr s2"
    by (simp add: run_append s1(1) s2(1) r)
  show ?case
  proof (cases "allChecksPassed s1")
    case True
    with s1 s2 run show ?thesis
      by (simp only: window_snoc) simp
  next
    case False
    with s1 s2 run show ?thesis
      by (simp only: window_snoc) (auto simp add: r)
  qed
qed

lemma ready_step:
  assumes "allChecksPassed s" and "e \<noteq> StartCheck" and "e \<noteq> ResetCheck"
  shows "\<exists>s'. step s e = Inr s' \<and> allChecksPassed s' \<and>
     (inflight s = [] \<longrightarrow>
        checklist s' = checklist s \<and> passStreak s' = passStreak s \<and> inflight s' = [])"
  using assms
  by (cases e)
    (auto simp add: onCameraReady_def handlers commit_simps
      split: pending.splits awaited.splits option.splits)

subsection \<open>Five entries everywhere\<close>

text \<open>The five entries are kept by every handler, from the first render on.\<close>

lemma wellFormed_initialState: "wellFormed initialState"
  by (simp add: wellFormed_def initialState_def initialChecklist_def)

lemma all_removed:
  "\<forall>p\<in>set xs. Q p \<Longrightarrow> \<forall>p\<in>set (take i xs @ drop (Suc i) xs). Q p"
  by (auto dest: in_set_takeD in_set_dropD)

lemma all_updated:
  "\<forall>p\<in>set xs. Q p \<Longrightarrow> Q q \<Longrightarrow> \<forall>p\<in>set (xs[i := q]). Q p"
  by (auto dest: set_update_subset_insert [THEN subsetD])

lemma wellFormed_capture:
  assumes "wellFormed s" and "i < length (inflight s)" and "inflight s ! i = AwaitCapture cl"
    and "step s (CaptureSettled i r) = Inr s'"
  shows "wellFormed s'"
proof -
  from assms(1) have cs: "length (checklist s) = 5"
    and ps: "\<forall>p\<in>set (inflight s). length (capturedBy p) = 5"
    by (simp_all add: wellFormed_def)
  from assms(2,3) ps have cl: "length cl = 5"
    by (metis capturedBy.simps(1) nth_mem)
  consider "s' = s\<lparr>isCapturing := False,
        inflight := take i (inflight s) @ drop (Suc i) (inflight s)\<rparr>"
    | ph where "s' = s\<lparr>inflight := (inflight s)[i := AwaitDetect cl ph]\<rparr>"
    using assms(2-4) by (auto simp add: handlers split: awaited.splits option.splits if_splits)
  then show ?thesis
  proof cases
    case 1
    with cs all_removed [OF ps] show ?thesis by (simp add: wellFormed_def)
  next
    case 2
    with cs all_updated [OF ps, of "AwaitDetect cl ph" i] cl show ?thesis
      by (simp add: wellFormed_def)
  qed
qed

lemma wellFormed_detect:
  assumes "wellFormed s" and "i < length (inflight s)" and "inflight s ! i = AwaitDetect cl ph"
    and "step s (DetectSettled i r) = Inr s'"
  shows "wellFormed s'"
proof -
  from assms(1) have cs: "length (checklist s) = 5"
    and ps: "\<forall>p\<in>set (inflight s). length (capturedBy p) = 5"
    by (simp_all add: wellFormed_def)
  from assms(2,3) ps have cl: "length cl = 5"
    by (metis capturedBy.simps(2) nth_mem)
  consider "s' = s\<lparr>isCapturing := False,
        inflight := take i (inflight s) @ drop (Suc i) (inflight s)\<rparr>"
    | faces where "s' = (commit (evaluate cl ph faces) s)\<lparr>isCapturing := False,
        inflight := take i (inflight s) @ drop (Suc i) (inflight s)\<rparr>"
    using assms(2-4) by (auto simp add: handlers commit_simps split: awaited.splits)
  then show ?thesis
  proof cases
    case 1
    with cs all_removed [OF ps] show ?thesis by (simp add: wellFormed_def)
  next
    case 2
    with cl all_removed [OF ps] show ?thesis
      by (simp add: wellFormed_def commit_simps length_evaluate)
  qed
qed

lemma wellFormed_step:
  assumes "wellFormed s" and "step s e = Inr s'"
  shows "wellFormed s'"
proof (cases e)
  case (CaptureSettled i r)
  with assms show ?thesis
    by (cases "i < length (inflight s)"; cases "inflight s ! i")
      (auto intro: wellFormed_capture)
next
  case (DetectSettled i r)
  with assms show ?thesis
    by (cases "i < length (inflight s)"; cases "inflight s ! i")
      (auto intro: wellFormed_detect)
next
  case Tick
  with assms show ?thesis
    by (auto simp add: wellFormed_def analyzeFrame_def split: if_splits)
qed (use assms in \<open>auto simp add: wellFormed_def startCheck_def resetCheck_def
    onCameraReady_def initialChecklist_def\<close>)

lemma wellFormed_run:
  assumes "wellFormed s" and "run s es = Inr s'"
  shows "wellFormed s'"
  using assms
proof (induction es arbitrary: s)
  case Nil
  then show ?case by simp
next
  case (Cons e es)
  then show ?case
    by (auto split: sum.splits dest: wellFormed_step)
qed

subsection \<open>One call at a time\<close>

lemma one_element: "length xs = Suc 0 \<longleftrightarrow> (\<exists>x. xs = [x])"
  by (cases xs) auto

lemma exclusive_step:
  assumes "exclusive s" and "e = ResetCheck \<longrightarrow> inflight s = []" and "step s e = Inr s'"
  shows "exclusive s'"
proof (cases "inflight s = []")
  case True
  with assms show ?thesis
    by (cases e)
      (auto simp add: exclusive_def startCheck_def resetCheck_def onCameraReady_def
        analyzeFrame_def split: if_splits)
next
  case False
  with assms(1) obtain p where p: "inflight s = [p]" and c: "isCapturing s"
    and n: "\<not> allChecksPassed s"
    by (auto simp add: exclusive_def one_element)
  show ?thesis
  proof (cases e)
    case (CaptureSettled i r)
    with assms(3) p c n show ?thesis
      by (cases "i = 0"; cases p)
        (auto simp add: exclusive_def handlers split: awaited.splits option.splits if_splits)
  next
    case (DetectSettled i r)
    with assms(3) p c n show ?thesis
      by (cases "i = 0"; cases p)
        (auto simp add: exclusive_def handlers commit_simps split: awaited.splits)
  qed (use assms p c n in \<open>auto simp add: exclusive_def startCheck_def resetCheck_def
      onCameraReady_def analyzeFrame_def\<close>)
qed

lemma exclusive_run:
  assumes "exclusive s" and "cleanRun s es" and "run s es = Inr s'"
  shows "exclusive s'"
  using assms
proof (induction es arbitrary: s)
  case Nil
  then show ?case by simp
next
  case (Cons e es)
  then obtain s1 where s1: "step s e = Inr s1" "cleanRun s1 es" "run s1 es = Inr s'"
    by (auto split: sum.splits)
  from Cons.prems s1(1) have "exclusive s1"
    by (auto intro: exclusive_step)
  from Cons.IH [OF this s1(2,3)] show ?case .
qed

lemma exclusive_initialState: "exclusive initialState"
  by (simp add: exclusive_def initialState_def)

text \<open>
  The guard of line 86 drops a trigger whenever the flag is set, and the flag is set
  under every suspended call as long as no reset comes while a call is suspended.
\<close>

lemma guarded_trigger_dropped:
  assumes "isCapturing s \<or>
     (inflight s \<noteq> [] \<and> (\<exists>es. cleanRun initialState es \<and> run initialState es = Inr s))"
  shows "step s Tick = Inr s"
proof -
  from assms have "isCapturing s"
    using exclusive_run [OF exclusive_initialState]
    by (auto simp add: exclusive_def)
  then show ?thesis by (simp add: analyzeFrame_def)
qed

lemma ready_run:
  assumes "allChecksPassed s" and "StartCheck \<notin> set es" and "ResetCheck \<notin> set es"
  shows "\<exists>s'. run s es = Inr s' \<and> allChecksPassed s' \<and>
     (inflight s = [] \<longrightarrow>
        checklist s' = checklist s \<and> passStreak s' = passStreak s \<and> inflight s' = [])"
  using assms
proof (induction es arbitrary: s)
  case Nil
  then show ?case by simp
next
  case (Cons e es)
  then have "e \<noteq> StartCheck" "e \<noteq> ResetCheck" by auto
  from ready_step [OF Cons.prems(1) this]
  obtain s1 where s1: "step s e = Inr s1" "allChecksPassed s1"
    "inflight s = [] \<longrightarrow>
      checklist s1 = checklist s \<and> passStreak s1 = passStreak s \<and> inflight s1 = []"
    by blast
  from Cons.prems have "StartCheck \<notin> set es" "ResetCheck \<notin> set es" by auto
  from Cons.IH [OF s1(2) this]
  obtain s' where "run s1 es = Inr s'" "allChecksPassed s'"
    "inflight s1 = [] \<longrightarrow>
      checklist s' = checklist s1 \<and> passStreak s' = passStreak s1 \<and> inflight s' = []"
    by blast
  with s1 show ?case by auto
qed

section \<open>The claims\<close>

text \<open>
  C1. From a state in which sampling starts (camera attached and ready, no call
  suspended, streak 0, not ready), after any sequence of evaluation cycles:
  \<^verbatim>\<open>allChecksPassed\<close> holds exactly if three consecutive cycles of the sequence had all
  five criteria passing, so it is false before the third consecutive full pass and
  true from it on; while it is false the streak is the number of full passes at the
  end of the sequence. In whatever state a cycle is committed, the streak goes up by
  one if \<^verbatim>\<open>passedCount\<close> is 5 and to 0 if it is less, and readiness is set exactly if
  the streak was already 2 or more at a full pass.
\<close>

theorem stabilization:
  assumes "cameraRef s" "cameraReady s" "\<not> isCapturing s" "inflight s = []"
    and "length (checklist s) = 5" "\<not> allChecksPassed s" "passStreak s = 0"
    and "\<forall>r\<in>set rs. hasUri (Some (fst r))"
  shows "(\<exists>s'. run s (concat (map cycle rs)) = Inr s' \<and>
      (allChecksPassed s' \<longleftrightarrow> (\<exists>k. k + 3 \<le> length rs \<and> (\<forall>j<3. fullPass (rs ! (k + j))))) \<and>
      (\<not> allChecksPassed s' \<longrightarrow> passStreak s' = length (takeWhile fullPass (rev rs)))) \<and>
    (\<forall>cl ph faces t. length cl = 5 \<longrightarrow>
       passStreak (commit (evaluate cl ph faces) t) =
         (if passedCount (fst (evaluate cl ph faces)) = 5 then passStreak t + 1 else 0) \<and>
       (allChecksPassed (commit (evaluate cl ph faces) t) \<longleftrightarrow>
          allChecksPassed t \<or> passedCount (fst (evaluate cl ph faces)) = 5 \<and> 2 \<le> passStreak t))"
proof -
  from assms have "quiet s" by (simp add: quiet_def)
  from stabilization_inv [OF this assms(6,7,8)]
  have "\<exists>s'. run s (concat (map cycle rs)) = Inr s' \<and>
      (allChecksPassed s' \<longleftrightarrow> (\<exists>k. k + 3 \<le> length rs \<and> (\<forall>j<3. fullPass (rs ! (k + j))))) \<and>
      (\<not> allChecksPassed s' \<longrightarrow> passStreak s' = length (takeWhile fullPass (rev rs)))"
    by blast
  moreover have "passStreak (commit (evaluate cl ph faces) t) =
         (if passedCount (fst (evaluate cl ph faces)) = 5 then passStreak t + 1 else 0) \<and>
       (allChecksPassed (commit (evaluate cl ph faces) t) \<longleftrightarrow>
          allChecksPassed t \<or> passedCount (fst (evaluate cl ph faces)) = 5 \<and> 2 \<le> passStreak t)"
    if "length cl = 5" for cl ph faces t
    using that by (simp add: commit_simps passCount_passedCount)
  ultimately show ?thesis by blast
qed

theorem stabilization_witness:
  "cameraRef sampling \<and> cameraReady sampling \<and> \<not> isCapturing sampling \<and>
   inflight sampling = [] \<and> length (checklist sampling) = 5 \<and>
   \<not> allChecksPassed sampling \<and> passStreak sampling = 0 \<and>
   observe (run sampling (concat (map cycle
     [(photoA, Some [faceA]), (photoA, Some [faceA]), (photoA, Some [faceA])]))) =
     Some ([Pass, Pass, Pass, Pass, Pass], 3, True) \<and>
   observe (run sampling (concat (map cycle
     [(photoA, Some [faceA]), (photoA, Some []), (photoA, Some [faceA]),
      (photoA, Some [faceA])]))) =
     Some ([Pass, Pass, Pass, Pass, Pass], 2, False) \<and>
   (\<exists>s'. run sampling (concat (map cycle
     [(photoA, Some [faceA]), (photoA, Some [faceA]), (photoA, Some [faceA])])) = Inr s' \<and>
      (allChecksPassed s' \<longleftrightarrow>
         (\<exists>k. k + 3 \<le> length [(photoA, Some [faceA]), (photoA, Some [faceA]), (photoA, Some [faceA])] \<and>
           (\<forall>j<3. fullPass
              ([(photoA, Some [faceA]), (photoA, Some [faceA]), (photoA, Some [faceA])] ! (k + j))))))"
proof -
  let ?rs = "[(photoA, Some [faceA]), (photoA, Some [faceA]), (photoA, Some [faceA])]"
  have h: "cameraRef sampling" "cameraReady sampling" "\<not> isCapturing sampling"
    "inflight sampling = []" "length (checklist sampling) = 5"
    "\<not> allChecksPassed sampling" "passStreak sampling = 0"
    by (simp_all add: sample_defs)
  have u: "\<forall>r\<in>set ?rs. hasUri (Some (fst r))"
    by (simp add: hasUri_photoA)
  have o3: "observe (run sampling (concat (map cycle ?rs))) =
      Some ([Pass, Pass, Pass, Pass, Pass], 3, True)"
    by (simp add: sample_defs cycle_def observe_def handlers criteria_defs faceA_passes)
  have o4: "observe (run sampling (concat (map cycle
     [(photoA, Some [faceA]), (photoA, Some []), (photoA, Some [faceA]),
      (photoA, Some [faceA])]))) =
     Some ([Pass, Pass, Pass, Pass, Pass], 2, False)"
    by (simp add: sample_defs cycle_def observe_def handlers criteria_defs faceA_passes)
  from stabilization [OF h u] h o3 o4 show ?thesis by blast
qed

text \<open>
  C2, as amended. The face criterion is set to pass exactly if the detector returned
  at least one face (the first entry is the one evaluated, also when there are two or
  more), and to fail exactly if it returned none.
\<close>

theorem face_rule:
  assumes "length cl = 5"
  shows "(status (fst (evaluate cl ph faces) ! 0) = Pass \<longleftrightarrow> (\<exists>f fs. faces = Some (f # fs))) \<and>
         (status (fst (evaluate cl ph faces) ! 0) = Fail \<longleftrightarrow> faces = None \<or> faces = Some [])"
proof (cases faces rule: faces_cases)
  case 1
  then have "map status (fst (evaluate cl ph faces)) ! 0 = Fail"
    by (simp add: evaluate_noface noFace_statuses [OF assms])
  then have "status (fst (evaluate cl ph faces) ! 0) = Fail"
    using assms by (simp add: length_evaluate)
  with 1 show ?thesis by auto
next
  case (2 f fs)
  with assms show ?thesis
    by (simp add: evaluate_face blocks status_setItem)
qed

theorem face_rule_witness:
  "length initialChecklist = 5 \<and>
   status (fst (evaluate initialChecklist photoA (Some [faceA, faceA])) ! 0) = Pass \<and>
   status (fst (evaluate initialChecklist photoA (Some [])) ! 0) = Fail"
proof -
  have h: "length initialChecklist = 5" by (simp add: initialChecklist_def)
  from face_rule [OF h, of photoA "Some [faceA, faceA]"] face_rule [OF h, of photoA "Some []"] h
  show ?thesis by simp
qed

text \<open>The claim as first stated fails on a frame with two faces: the criterion passes.\<close>

theorem face_rule_counterexample:
  "status (fst (evaluate initialChecklist photoA (Some [faceA, faceA])) ! 0) = Pass \<and>
   length [faceA, faceA] \<noteq> 1"
  by (simp add: evaluate_face blocks status_setItem initialChecklist_def)

text \<open>
  C3, as amended. A reset while a call of \<^verbatim>\<open>analyzeFrame\<close> is suspended restores the
  initial checklist, zeroes the streak and clears readiness and the in-flight flag,
  and leaves the suspended call in place. When that call is then delivered its photo
  and its detection result, the result is applied as that of any cycle: the checklist
  becomes its evaluation and the streak 1 on a full pass and 0 otherwise, and
  readiness stays false.
\<close>

theorem stale_result_applied:
  assumes "i < length (inflight s)"
    and "(inflight s ! i = AwaitCapture cl \<and> hasUri (Some ph) \<and>
            es = [CaptureSettled i (Resolved (Some ph)), DetectSettled i (Resolved faces)]) \<or>
         (inflight s ! i = AwaitDetect cl ph \<and> es = [DetectSettled i (Resolved faces)])"
  shows "checklist (resetCheck s) = initialChecklist \<and> passStreak (resetCheck s) = 0 \<and>
         \<not> allChecksPassed (resetCheck s) \<and> \<not> isCapturing (resetCheck s) \<and>
         inflight (resetCheck s) = inflight s \<and>
         (\<exists>s'. run (resetCheck s) es = Inr s' \<and>
            checklist s' = fst (evaluate cl ph faces) \<and>
            passStreak s' = (if snd (evaluate cl ph faces) = 5 then 1 else 0) \<and>
            \<not> allChecksPassed s')"
  using assms
  by (auto simp add: resetCheck_def handlers commit_simps)

theorem stale_result_applied_witness:
  "step sampling Tick = Inr capturing \<and> 0 < length (inflight capturing) \<and>
   inflight capturing ! 0 = AwaitCapture initialChecklist \<and> hasUri (Some photoA) \<and>
   (\<exists>s'. run (resetCheck capturing)
        [CaptureSettled 0 (Resolved (Some photoA)), DetectSettled 0 (Resolved (Some [faceA]))] =
        Inr s' \<and>
      checklist s' = fst (evaluate initialChecklist photoA (Some [faceA])) \<and>
      passStreak s' = (if snd (evaluate initialChecklist photoA (Some [faceA])) = 5 then 1 else 0))"
proof -
  have r: "step sampling Tick = Inr capturing"
    by (simp add: sample_defs capturing_def analyzeFrame_def)
  have h: "0 < length (inflight capturing)"
    "inflight capturing ! 0 = AwaitCapture initialChecklist" "hasUri (Some photoA)"
    by (simp_all add: sample_defs capturing_def hasUri_photoA)
  from h(2,3) have d: "(inflight capturing ! 0 = AwaitCapture initialChecklist \<and>
      hasUri (Some photoA) \<and>
      [CaptureSettled 0 (Resolved (Some photoA)), DetectSettled 0 (Resolved (Some [faceA]))] =
      [CaptureSettled 0 (Resolved (Some photoA)), DetectSettled 0 (Resolved (Some [faceA]))]) \<or>
     (inflight capturing ! 0 = AwaitDetect initialChecklist photoA \<and>
      [CaptureSettled 0 (Resolved (Some photoA)), DetectSettled 0 (Resolved (Some [faceA]))] =
      [DetectSettled 0 (Resolved (Some [faceA]))])"
    by simp
  from stale_result_applied [OF h(1) d] r h show ?thesis by blast
qed

text \<open>
  The claim as first stated fails: a reset comes while the first capture is awaited,
  and the detection result delivered after it is written to the checklist and the
  streak.
\<close>

theorem stale_result_counterexample:
  "observe (run sampling [Tick, ResetCheck]) =
     Some ([Checking, Checking, Checking, Checking, Checking], 0, False) \<and>
   observe (run sampling [Tick, ResetCheck, CaptureSettled 0 (Resolved (Some photoA)),
       DetectSettled 0 (Resolved (Some [faceA]))]) =
     Some ([Pass, Pass, Pass, Pass, Pass], 1, False)"
  by (simp add: sample_defs observe_def handlers criteria_defs faceA_passes)

text \<open>
  C4. When the detector resolves to an empty list, whatever the state and whatever
  five entries the call captured, the checklist written has the face criterion on
  fail and the other four on checking, and the streak is 0.
\<close>

theorem no_face_cycle:
  assumes "i < length (inflight s)" and "inflight s ! i = AwaitDetect cl ph"
    and "length cl = 5"
  shows "\<exists>s'. step s (DetectSettled i (Resolved (Some []))) = Inr s' \<and>
           map status (checklist s') = [Fail, Checking, Checking, Checking, Checking] \<and>
           passStreak s' = 0"
  using assms
  by (simp add: handlers commit_simps evaluate_noface noFace_statuses snd_noFace)

theorem no_face_cycle_witness:
  "0 < length (inflight detecting) \<and>
   inflight detecting ! 0 = AwaitDetect initialChecklist photoA \<and>
   length initialChecklist = 5 \<and>
   (\<exists>s'. step detecting (DetectSettled 0 (Resolved (Some []))) = Inr s' \<and>
      map status (checklist s') = [Fail, Checking, Checking, Checking, Checking] \<and>
      passStreak s' = 0)"
proof -
  have h: "0 < length (inflight detecting)"
    "inflight detecting ! 0 = AwaitDetect initialChecklist photoA"
    "length initialChecklist = 5"
    by (simp_all add: sample_defs detecting_def)
  from no_face_cycle [OF h] h show ?thesis by blast
qed

text \<open>
  C5. With a face present, the framing criterion passes exactly if the horizontal
  offset of the face centre from 0.5 is below \<^verbatim>\<open>CENTER_TOLERANCE\<close>, the vertical offset
  is below \<^verbatim>\<open>CENTER_TOLERANCE + 0.1\<close>, and the width ratio lies between \<^verbatim>\<open>MIN_FACE_SIZE\<close>
  and \<^verbatim>\<open>MAX_FACE_SIZE\<close>, both included; otherwise it fails. Offsets, sum and bounds
  are the binary64 numbers the code computes: the bounds are the numbers 0.22 and
  0.32 for the centre and 0.15 and 0.8 for the size.
\<close>

theorem framing_rule:
  assumes "length cl = 5"
  shows "(status (fst (evaluate cl ph (Some (f # fs))) ! 1) = Pass \<longleftrightarrow>
            \<bar>minus64 (faceCenterX ph f) 0.5\<bar> < CENTER_TOLERANCE THRESHOLDS \<and>
            \<bar>minus64 (faceCenterY ph f) 0.5\<bar> <
              plus64 (CENTER_TOLERANCE THRESHOLDS) (binary64 0.1) \<and>
            MIN_FACE_SIZE THRESHOLDS \<le> faceWidthRatio ph f \<and>
            faceWidthRatio ph f \<le> MAX_FACE_SIZE THRESHOLDS) \<and>
         (status (fst (evaluate cl ph (Some (f # fs))) ! 1) \<noteq> Pass \<longrightarrow>
            status (fst (evaluate cl ph (Some (f # fs))) ! 1) = Fail) \<and>
         CENTER_TOLERANCE THRESHOLDS = binary64 0.22 \<and>
         plus64 (CENTER_TOLERANCE THRESHOLDS) (binary64 0.1) = binary64 0.32 \<and>
         MIN_FACE_SIZE THRESHOLDS = binary64 0.15 \<and> MAX_FACE_SIZE THRESHOLDS = binary64 0.8"
proof -
  have "plus64 (CENTER_TOLERANCE THRESHOLDS) (binary64 0.1) = binary64 0.32"
    by code_simp
  moreover have "CENTER_TOLERANCE THRESHOLDS = binary64 0.22"
    "MIN_FACE_SIZE THRESHOLDS = binary64 0.15" "MAX_FACE_SIZE THRESHOLDS = binary64 0.8"
    by (simp_all add: THRESHOLDS_def)
  moreover from assms
  have "status (fst (evaluate cl ph (Some (f # fs))) ! 1) =
      (if centered ph f \<and> goodSize ph f then Pass else Fail)"
    by (simp add: evaluate_face blocks status_setItem)
  ultimately show ?thesis
    by (simp add: centered_def goodSize_def offX_def offY_def)
qed

theorem framing_rule_witness:
  "length initialChecklist = 5 \<and>
   status (fst (evaluate initialChecklist photoA (Some [faceA])) ! 1) = Pass \<and>
   status (fst (evaluate initialChecklist photoA (Some [framed 570 350 300 300])) ! 1) = Pass \<and>
   status (fst (evaluate initialChecklist photoA (Some [framed 571 350 300 300])) ! 1) = Fail \<and>
   status (fst (evaluate initialChecklist photoA (Some [framed 130 350 300 300])) ! 1) = Pass \<and>
   status (fst (evaluate initialChecklist photoA (Some [framed 350 670 300 300])) ! 1) = Pass \<and>
   status (fst (evaluate initialChecklist photoA (Some [framed 350 671 300 300])) ! 1) = Fail \<and>
   status (fst (evaluate initialChecklist photoA (Some [framed 425 350 150 300])) ! 1) = Pass \<and>
   status (fst (evaluate initialChecklist photoA (Some [framed 425 350 149 300])) ! 1) = Fail \<and>
   status (fst (evaluate initialChecklist photoA (Some [framed 100 350 800 300])) ! 1) = Pass"
proof -
  have h: "length initialChecklist = 5" by (simp add: initialChecklist_def)
  have a: "\<bar>minus64 (faceCenterX photoA faceA) 0.5\<bar> < CENTER_TOLERANCE THRESHOLDS \<and>
      \<bar>minus64 (faceCenterY photoA faceA) 0.5\<bar> <
        plus64 (CENTER_TOLERANCE THRESHOLDS) (binary64 0.1) \<and>
      MIN_FACE_SIZE THRESHOLDS \<le> faceWidthRatio photoA faceA \<and>
      faceWidthRatio photoA faceA \<le> MAX_FACE_SIZE THRESHOLDS"
    by code_simp
  have b: "\<bar>minus64 (faceCenterX photoA (framed 570 350 300 300)) 0.5\<bar> <
        CENTER_TOLERANCE THRESHOLDS \<and>
      \<bar>minus64 (faceCenterY photoA (framed 570 350 300 300)) 0.5\<bar> <
        plus64 (CENTER_TOLERANCE THRESHOLDS) (binary64 0.1) \<and>
      MIN_FACE_SIZE THRESHOLDS \<le> faceWidthRatio photoA (framed 570 350 300 300) \<and>
      faceWidthRatio photoA (framed 570 350 300 300) \<le> MAX_FACE_SIZE THRESHOLDS"
    by code_simp
  have c: "\<not> \<bar>minus64 (faceCenterX photoA (framed 571 350 300 300)) 0.5\<bar> <
        CENTER_TOLERANCE THRESHOLDS"
    by code_simp
  have d: "\<bar>minus64 (faceCenterX photoA (framed 130 350 300 300)) 0.5\<bar> <
        CENTER_TOLERANCE THRESHOLDS \<and>
      \<bar>minus64 (faceCenterY photoA (framed 130 350 300 300)) 0.5\<bar> <
        plus64 (CENTER_TOLERANCE THRESHOLDS) (binary64 0.1) \<and>
      MIN_FACE_SIZE THRESHOLDS \<le> faceWidthRatio photoA (framed 130 350 300 300) \<and>
      faceWidthRatio photoA (framed 130 350 300 300) \<le> MAX_FACE_SIZE THRESHOLDS"
    by code_simp
  have e: "\<bar>minus64 (faceCenterX photoA (framed 350 670 300 300)) 0.5\<bar> <
        CENTER_TOLERANCE THRESHOLDS \<and>
      \<bar>minus64 (faceCenterY photoA (framed 350 670 300 300)) 0.5\<bar> <
        plus64 (CENTER_TOLERANCE THRESHOLDS) (binary64 0.1) \<and>
      MIN_FACE_SIZE THRESHOLDS \<le> faceWidthRatio photoA (framed 350 670 300 300) \<and>
      faceWidthRatio photoA (framed 350 670 300 300) \<le> MAX_FACE_SIZE THRESHOLDS"
    by code_simp
  have f: "\<not> \<bar>minus64 (faceCenterY photoA (framed 350 671 300 300)) 0.5\<bar> <
        plus64 (CENTER_TOLERANCE THRESHOLDS) (binary64 0.1)"
    by code_simp
  have g: "\<bar>minus64 (faceCenterX photoA (framed 425 350 150 300)) 0.5\<bar> <
        CENTER_TOLERANCE THRESHOLDS \<and>
      \<bar>minus64 (faceCenterY photoA (framed 425 350 150 300)) 0.5\<bar> <
        plus64 (CENTER_TOLERANCE THRESHOLDS) (binary64 0.1) \<and>
      MIN_FACE_SIZE THRESHOLDS \<le> faceWidthRatio photoA (framed 425 350 150 300) \<and>
      faceWidthRatio photoA (framed 425 350 150 300) \<le> MAX_FACE_SIZE THRESHOLDS"
    by code_simp
  have i: "\<not> MIN_FACE_SIZE THRESHOLDS \<le> faceWidthRatio photoA (framed 425 350 149 300)"
    by code_simp
  have j: "\<bar>minus64 (faceCenterX photoA (framed 100 350 800 300)) 0.5\<bar> <
        CENTER_TOLERANCE THRESHOLDS \<and>
      \<bar>minus64 (faceCenterY photoA (framed 100 350 800 300)) 0.5\<bar> <
        plus64 (CENTER_TOLERANCE THRESHOLDS) (binary64 0.1) \<and>
      MIN_FACE_SIZE THRESHOLDS \<le> faceWidthRatio photoA (framed 100 350 800 300) \<and>
      faceWidthRatio photoA (framed 100 350 800 300) \<le> MAX_FACE_SIZE THRESHOLDS"
    by code_simp
  from framing_rule [OF h, of photoA faceA "[]"] a
  have 1: "status (fst (evaluate initialChecklist photoA (Some [faceA])) ! 1) = Pass"
    by blast
  from framing_rule [OF h, of photoA "framed 570 350 300 300" "[]"] b
  have 2: "status (fst (evaluate initialChecklist photoA
      (Some [framed 570 350 300 300])) ! 1) = Pass"
    by blast
  from framing_rule [OF h, of photoA "framed 571 350 300 300" "[]"] c
  have 3: "status (fst (evaluate initialChecklist photoA
      (Some [framed 571 350 300 300])) ! 1) = Fail"
    by blast
  from framing_rule [OF h, of photoA "framed 130 350 300 300" "[]"] d
  have 4: "status (fst (evaluate initialChecklist photoA
      (Some [framed 130 350 300 300])) ! 1) = Pass"
    by blast
  from framing_rule [OF h, of photoA "framed 350 670 300 300" "[]"] e
  have 5: "status (fst (evaluate initialChecklist photoA
      (Some [framed 350 670 300 300])) ! 1) = Pass"
    by blast
  from framing_rule [OF h, of photoA "framed 350 671 300 300" "[]"] f
  have 6: "status (fst (evaluate initialChecklist photoA
      (Some [framed 350 671 300 300])) ! 1) = Fail"
    by blast
  from framing_rule [OF h, of photoA "framed 425 350 150 300" "[]"] g
  have 7: "status (fst (evaluate initialChecklist photoA
      (Some [framed 425 350 150 300])) ! 1) = Pass"
    by blast
  from framing_rule [OF h, of photoA "framed 425 350 149 300" "[]"] i
  have 8: "status (fst (evaluate initialChecklist photoA
      (Some [framed 425 350 149 300])) ! 1) = Fail"
    by blast
  from framing_rule [OF h, of photoA "framed 100 350 800 300" "[]"] j
  have 9: "status (fst (evaluate initialChecklist photoA
      (Some [framed 100 350 800 300])) ! 1) = Pass"
    by blast
  from h 1 2 3 4 5 6 7 8 9 show ?thesis by blast
qed

text \<open>
  C6. With a face present: if the absolute yaw is at least \<^verbatim>\<open>HEAD_YAW_LIMIT\<close> the eye
  contact criterion fails whatever the eye values; it passes exactly if both eye
  values exceed \<^verbatim>\<open>EYE_OPEN_THRESHOLD\<close> and the absolute yaw is below the limit; when it
  does not pass it is on fail, with the hint to open the eyes if the eye test failed
  and the hint to look at the camera only otherwise.
\<close>

theorem eyeContact_rule:
  assumes "length cl = 5"
  shows "(HEAD_YAW_LIMIT THRESHOLDS \<le> \<bar>yawAngle f\<bar> \<longrightarrow>
            status (fst (evaluate cl ph (Some (f # fs))) ! 2) = Fail) \<and>
         (status (fst (evaluate cl ph (Some (f # fs))) ! 2) = Pass \<longleftrightarrow>
            leftEyeOpen f > EYE_OPEN_THRESHOLD THRESHOLDS \<and>
            rightEyeOpen f > EYE_OPEN_THRESHOLD THRESHOLDS \<and>
            \<bar>yawAngle f\<bar> < HEAD_YAW_LIMIT THRESHOLDS) \<and>
         (status (fst (evaluate cl ph (Some (f # fs))) ! 2) \<noteq> Pass \<longrightarrow>
            status (fst (evaluate cl ph (Some (f # fs))) ! 2) = Fail \<and>
            detail (fst (evaluate cl ph (Some (f # fs))) ! 2) =
              (if leftEyeOpen f > EYE_OPEN_THRESHOLD THRESHOLDS \<and>
                  rightEyeOpen f > EYE_OPEN_THRESHOLD THRESHOLDS
               then ''Look at camera'' else ''Open eyes''))"
  using assms
  by (simp add: evaluate_face blocks status_setItem detail_setItem eyesOk_def lookingOk_def)

theorem eyeContact_rule_witness:
  "length initialChecklist = 5 \<and>
   HEAD_YAW_LIMIT THRESHOLDS \<le> \<bar>yawAngle (faceA\<lparr>headEulerAngleY := Some 30\<rparr>)\<bar> \<and>
   status (fst (evaluate initialChecklist photoA
     (Some [faceA\<lparr>headEulerAngleY := Some 30\<rparr>])) ! 2) = Fail \<and>
   detail (fst (evaluate initialChecklist photoA
     (Some [faceA\<lparr>headEulerAngleY := Some 30\<rparr>])) ! 2) = ''Look at camera'' \<and>
   detail (fst (evaluate initialChecklist photoA
     (Some [faceA\<lparr>headEulerAngleY := Some 30,
        leftEyeOpenProbability := Some (binary64 0.1)\<rparr>])) ! 2) = ''Open eyes'' \<and>
   status (fst (evaluate initialChecklist photoA (Some [faceA])) ! 2) = Pass"
proof -
  have h: "length initialChecklist = 5" by (simp add: initialChecklist_def)
  have y: "HEAD_YAW_LIMIT THRESHOLDS \<le> \<bar>yawAngle (faceA\<lparr>headEulerAngleY := Some 30\<rparr>)\<bar>"
    by code_simp
  have e: "leftEyeOpen (faceA\<lparr>headEulerAngleY := Some 30\<rparr>) > EYE_OPEN_THRESHOLD THRESHOLDS \<and>
      rightEyeOpen (faceA\<lparr>headEulerAngleY := Some 30\<rparr>) > EYE_OPEN_THRESHOLD THRESHOLDS"
    by code_simp
  have y': "HEAD_YAW_LIMIT THRESHOLDS \<le> \<bar>yawAngle (faceA\<lparr>headEulerAngleY := Some 30,
      leftEyeOpenProbability := Some (binary64 0.1)\<rparr>)\<bar>"
    by code_simp
  have e': "\<not> leftEyeOpen (faceA\<lparr>headEulerAngleY := Some 30,
      leftEyeOpenProbability := Some (binary64 0.1)\<rparr>) > EYE_OPEN_THRESHOLD THRESHOLDS"
    by code_simp
  have p: "leftEyeOpen faceA > EYE_OPEN_THRESHOLD THRESHOLDS \<and>
      rightEyeOpen faceA > EYE_OPEN_THRESHOLD THRESHOLDS \<and>
      \<bar>yawAngle faceA\<bar> < HEAD_YAW_LIMIT THRESHOLDS"
    by code_simp
  from eyeContact_rule [OF h, of "faceA\<lparr>headEulerAngleY := Some 30\<rparr>" photoA "[]"] y e
  have 1: "status (fst (evaluate initialChecklist photoA
        (Some [faceA\<lparr>headEulerAngleY := Some 30\<rparr>])) ! 2) = Fail"
    "detail (fst (evaluate initialChecklist photoA
        (Some [faceA\<lparr>headEulerAngleY := Some 30\<rparr>])) ! 2) = ''Look at camera''"
    by auto
  from eyeContact_rule [OF h,
      of "faceA\<lparr>headEulerAngleY := Some 30, leftEyeOpenProbability := Some (binary64 0.1)\<rparr>"
        photoA "[]"] y' e'
  have 2: "detail (fst (evaluate initialChecklist photoA
     (Some [faceA\<lparr>headEulerAngleY := Some 30,
        leftEyeOpenProbability := Some (binary64 0.1)\<rparr>])) ! 2) = ''Open eyes''"
    by auto
  from eyeContact_rule [OF h, of faceA photoA "[]"] p
  have 3: "status (fst (evaluate initialChecklist photoA (Some [faceA])) ! 2) = Pass"
    by blast
  from h y 1 2 3 show ?thesis by blast
qed

text \<open>
  C7. When the capture resolves without a uri, or the capture or the detection
  rejects, the call ends normally (no exception leaves it) and the state is the one
  before except that the in-flight flag is cleared and the call is no longer
  suspended: checklist, streak and readiness are untouched.
\<close>

theorem abandoned_cycle:
  assumes "i < length (inflight s)"
    and "(inflight s ! i = AwaitCapture cl \<and> e = CaptureSettled i r \<and>
            (r = Rejected \<or> (\<exists>p. r = Resolved p \<and> \<not> hasUri p))) \<or>
         (inflight s ! i = AwaitDetect cl ph \<and> e = DetectSettled i Rejected)"
  shows "step s e =
           Inr (s\<lparr>isCapturing := False,
                  inflight := take i (inflight s) @ drop (Suc i) (inflight s)\<rparr>)"
  using assms
  by (auto simp add: handlers split: option.splits)

theorem abandoned_cycle_witness:
  "0 < length (inflight capturing) \<and>
   inflight capturing ! 0 = AwaitCapture initialChecklist \<and>
   step capturing (CaptureSettled 0 Rejected) =
     Inr (capturing\<lparr>isCapturing := False, inflight := []\<rparr>) \<and>
   \<not> hasUri None \<and>
   step capturing (CaptureSettled 0 (Resolved None)) =
     Inr (capturing\<lparr>isCapturing := False, inflight := []\<rparr>) \<and>
   inflight detecting ! 0 = AwaitDetect initialChecklist photoA \<and>
   step detecting (DetectSettled 0 Rejected) =
     Inr (detecting\<lparr>isCapturing := False, inflight := []\<rparr>)"
proof -
  have h: "0 < length (inflight capturing)"
    "inflight capturing ! 0 = AwaitCapture initialChecklist"
    "0 < length (inflight detecting)"
    "inflight detecting ! 0 = AwaitDetect initialChecklist photoA"
    "\<not> hasUri None"
    by (simp_all add: sample_defs capturing_def detecting_def hasUri_def)
  have c1: "(inflight capturing ! 0 = AwaitCapture initialChecklist \<and>
      CaptureSettled 0 Rejected = CaptureSettled 0 Rejected \<and>
      (Rejected = Rejected \<or> (\<exists>p. (Rejected :: photo option awaited) = Resolved p \<and> \<not> hasUri p))) \<or>
     (inflight capturing ! 0 = AwaitDetect initialChecklist photoA \<and>
      CaptureSettled 0 Rejected = DetectSettled 0 Rejected)"
    using h(2) by simp
  have c2: "(inflight capturing ! 0 = AwaitCapture initialChecklist \<and>
      CaptureSettled 0 (Resolved None) = CaptureSettled 0 (Resolved None) \<and>
      (Resolved None = Rejected \<or> (\<exists>p. Resolved None = Resolved p \<and> \<not> hasUri p))) \<or>
     (inflight capturing ! 0 = AwaitDetect initialChecklist photoA \<and>
      CaptureSettled 0 (Resolved None) = DetectSettled 0 Rejected)"
    using h(2,5) by simp
  have c3: "(inflight detecting ! 0 = AwaitCapture initialChecklist \<and>
      DetectSettled 0 Rejected = CaptureSettled 0 Rejected \<and>
      (Rejected = Rejected \<or> (\<exists>p. (Rejected :: photo option awaited) = Resolved p \<and> \<not> hasUri p))) \<or>
     (inflight detecting ! 0 = AwaitDetect initialChecklist photoA \<and>
      DetectSettled 0 Rejected = DetectSettled 0 Rejected)"
    using h(4) by simp
  have e: "take 0 (inflight capturing) @ drop (Suc 0) (inflight capturing) = []"
    "take 0 (inflight detecting) @ drop (Suc 0) (inflight detecting) = []"
    by (simp_all add: sample_defs capturing_def detecting_def)
  from abandoned_cycle [OF h(1) c1] abandoned_cycle [OF h(1) c2] abandoned_cycle [OF h(3) c3]
    e h
  show ?thesis by simp
qed

text \<open>
  C8. A trigger that fires while a call of \<^verbatim>\<open>analyzeFrame\<close> is suspended is to be
  dropped (line 85: only capture if not already capturing). The code does not keep
  to this after a stop: with the first call still suspended at the capture,
  \<^verbatim>\<open>resetCheck\<close> clears the flag, and after a new start the trigger passes the guard and
  suspends a second call beside the first.
\<close>

theorem trigger_overlap:
  "run sampling [Tick, ResetCheck, StartCheck] = Inr restarted \<and>
   inflight restarted = [AwaitCapture initialChecklist] \<and> \<not> isCapturing restarted \<and>
   step restarted Tick =
     Inr (restarted\<lparr>isCapturing := True,
            inflight := [AwaitCapture initialChecklist, AwaitCapture initialChecklist]\<rparr>) \<and>
   step restarted Tick \<noteq> Inr restarted"
  by (simp add: sample_defs capturing_def restarted_def analyzeFrame_def)

text \<open>
  C9, as amended. Once \<^verbatim>\<open>allChecksPassed\<close> is true, it stays true through every run of
  handlers without \<^verbatim>\<open>startCheck\<close> and \<^verbatim>\<open>resetCheck\<close>, and a trigger in the state reached
  is dropped. If moreover no call of \<^verbatim>\<open>analyzeFrame\<close> is suspended when it becomes true,
  as is the case whenever no reset was issued while a call was suspended, the
  checklist and the streak stay as they are and no call gets suspended.
\<close>

theorem ready_latched:
  assumes "allChecksPassed s" and "StartCheck \<notin> set es" and "ResetCheck \<notin> set es"
  shows "\<exists>s'. run s es = Inr s' \<and> allChecksPassed s' \<and> step s' Tick = Inr s' \<and>
     (inflight s = [] \<or> (\<exists>es0. cleanRun initialState es0 \<and> run initialState es0 = Inr s) \<longrightarrow>
        checklist s' = checklist s \<and> passStreak s' = passStreak s \<and> inflight s' = [])"
proof -
  have "inflight s = []"
    if "inflight s = [] \<or> (\<exists>es0. cleanRun initialState es0 \<and> run initialState es0 = Inr s)"
    using that assms(1) exclusive_run [OF exclusive_initialState]
    by (auto simp add: exclusive_def)
  moreover from ready_run [OF assms]
  obtain s' where s': "run s es = Inr s'" "allChecksPassed s'"
    "inflight s = [] \<longrightarrow>
      checklist s' = checklist s \<and> passStreak s' = passStreak s \<and> inflight s' = []"
    by blast
  moreover from s'(2) have "step s' Tick = Inr s'"
    by (simp add: analyzeFrame_def)
  ultimately show ?thesis by blast
qed

theorem ready_latched_witness:
  "cleanRun initialState ([StartCheck, OnCameraReady] @ concat (map cycle
     [(photoA, Some [faceA]), (photoA, Some [faceA]), (photoA, Some [faceA])])) \<and>
   run initialState ([StartCheck, OnCameraReady] @ concat (map cycle
     [(photoA, Some [faceA]), (photoA, Some [faceA]), (photoA, Some [faceA])])) = Inr readyA \<and>
   allChecksPassed readyA \<and>
   StartCheck \<notin> set (Tick # cycle (photoA, Some [])) \<and>
   ResetCheck \<notin> set (Tick # cycle (photoA, Some [])) \<and>
   (\<exists>s'. run readyA (Tick # cycle (photoA, Some [])) = Inr s' \<and> allChecksPassed s' \<and>
      checklist s' = checklist readyA \<and> passStreak s' = passStreak readyA)"
proof -
  let ?es0 = "[StartCheck, OnCameraReady] @ concat (map cycle
     [(photoA, Some [faceA]), (photoA, Some [faceA]), (photoA, Some [faceA])])"
  have c: "cleanRun initialState ?es0"
    by (simp add: sample_defs readyA_def cycle_def handlers criteria_defs faceA_passes)
  have r: "run initialState ?es0 = Inr readyA"
    by (simp add: sample_defs readyA_def cycle_def handlers criteria_defs faceA_passes)
  have h: "allChecksPassed readyA" "StartCheck \<notin> set (Tick # cycle (photoA, Some []))"
    "ResetCheck \<notin> set (Tick # cycle (photoA, Some []))"
    by (simp_all add: readyA_def cycle_def)
  from c r have "inflight readyA = [] \<or>
      (\<exists>es0. cleanRun initialState es0 \<and> run initialState es0 = Inr readyA)"
    by blast
  with ready_latched [OF h] c r h show ?thesis by blast
qed

text \<open>
  The claim as first stated fails when a call suspended before an earlier reset is
  still waiting: three full passes of the new session make the state ready, and the
  old call, delivered a frame without a face, then rewrites the checklist and zeroes
  the streak.
\<close>

theorem ready_latched_counterexample:
  "observe (run sampling
     [Tick, ResetCheck, StartCheck,
      Tick, CaptureSettled 1 (Resolved (Some photoA)), DetectSettled 1 (Resolved (Some [faceA])),
      Tick, CaptureSettled 1 (Resolved (Some photoA)), DetectSettled 1 (Resolved (Some [faceA])),
      Tick, CaptureSettled 1 (Resolved (Some photoA)), DetectSettled 1 (Resolved (Some [faceA]))]) =
     Some ([Pass, Pass, Pass, Pass, Pass], 3, True) \<and>
   observe (run sampling
     [Tick, ResetCheck, StartCheck,
      Tick, CaptureSettled 1 (Resolved (Some photoA)), DetectSettled 1 (Resolved (Some [faceA])),
      Tick, CaptureSettled 1 (Resolved (Some photoA)), DetectSettled 1 (Resolved (Some [faceA])),
      Tick, CaptureSettled 1 (Resolved (Some photoA)), DetectSettled 1 (Resolved (Some [faceA])),
      CaptureSettled 0 (Resolved (Some photoA)), DetectSettled 0 (Resolved (Some []))]) =
     Some ([Fail, Checking, Checking, Checking, Checking], 0, True)"
  by (simp add: sample_defs observe_def handlers criteria_defs faceA_passes)

text \<open>
  C10. When the first face has no smiling probability, \<^verbatim>\<open>smileProb\<close> is 0 and the
  expression criterion is on fail with the hint to smile. The other defaults: yaw and
  roll are 0 when both of their fields are absent, and an absent eye value is the
  number 0.8, above the threshold, the number 0.4.
\<close>

theorem smile_default:
  assumes "length cl = 5" and "smilingProbability f = None"
  shows "smileProb f = 0 \<and>
         status (fst (evaluate cl ph (Some (f # fs))) ! 3) = Fail \<and>
         detail (fst (evaluate cl ph (Some (f # fs))) ! 3) = ''Smile a bit'' \<and>
         (headEulerAngleY f = None \<and> yawAngle_field f = None \<longrightarrow> yawAngle f = 0) \<and>
         (headEulerAngleZ f = None \<and> rollAngle_field f = None \<longrightarrow> rollAngle f = 0) \<and>
         (leftEyeOpenProbability f = None \<longrightarrow> leftEyeOpen f = binary64 0.8) \<and>
         (rightEyeOpenProbability f = None \<longrightarrow> rightEyeOpen f = binary64 0.8) \<and>
         EYE_OPEN_THRESHOLD THRESHOLDS = binary64 0.4 \<and>
         binary64 0.8 > EYE_OPEN_THRESHOLD THRESHOLDS"
proof -
  have t: "\<not> EXPRESSION_THRESHOLD THRESHOLDS < 0"
    by code_simp
  have e: "binary64 0.8 > EYE_OPEN_THRESHOLD THRESHOLDS"
    by code_simp
  have "EYE_OPEN_THRESHOLD THRESHOLDS = binary64 0.4"
    by (simp add: THRESHOLDS_def)
  with assms t e show ?thesis
    by (simp add: evaluate_face blocks status_setItem detail_setItem smileProb_def nullish_def
        yawAngle_def rollAngle_def leftEyeOpen_def rightEyeOpen_def)
qed

theorem smile_default_witness:
  "length initialChecklist = 5 \<and> smilingProbability faceBare = None \<and>
   headEulerAngleY faceBare = None \<and> yawAngle_field faceBare = None \<and>
   headEulerAngleZ faceBare = None \<and> rollAngle_field faceBare = None \<and>
   leftEyeOpenProbability faceBare = None \<and> rightEyeOpenProbability faceBare = None \<and>
   smileProb faceBare = 0 \<and> yawAngle faceBare = 0 \<and> rollAngle faceBare = 0 \<and>
   leftEyeOpen faceBare = binary64 0.8 \<and> rightEyeOpen faceBare = binary64 0.8 \<and>
   status (fst (evaluate initialChecklist photoA (Some [faceBare])) ! 3) = Fail \<and>
   detail (fst (evaluate initialChecklist photoA (Some [faceBare])) ! 3) = ''Smile a bit''"
proof -
  have h: "length initialChecklist = 5" "smilingProbability faceBare = None"
    by (simp_all add: initialChecklist_def faceBare_def faceA_def)
  have n: "headEulerAngleY faceBare = None" "yawAngle_field faceBare = None"
    "headEulerAngleZ faceBare = None" "rollAngle_field faceBare = None"
    "leftEyeOpenProbability faceBare = None" "rightEyeOpenProbability faceBare = None"
    by (simp_all add: faceBare_def faceA_def)
  from smile_default [OF h, of photoA "[]"] h n show ?thesis by simp
qed

end
